theory Spec2Isabelle
  imports Main "HOL-Library.Word"
begin

section \<open>mpvctrl: the command multiplexer of \<^verbatim>\<open>mpvctrl.go\<close>\<close>

text \<open>
  The program keeps one connection to an mpv player. \<^verbatim>\<open>sendCommand\<close> writes a
  command line tagged with a random 32-bit identifier and registers a channel under that
  identifier; the goroutine \<^verbatim>\<open>inputMonitor\<close> reads lines from the connection and
  hands each response to the channel registered under its \<^verbatim>\<open>request_id\<close>;
  \<^verbatim>\<open>Close\<close> waits for the WaitGroup and closes the connection.

  The embedding is a state machine. The state holds the fields of \<^verbatim>\<open>MPVClient\<close>,
  the channels it refers to, and where the goroutines stand. Everything the program
  obtains from outside (the results of \<^verbatim>\<open>Write\<close>, \<^verbatim>\<open>Flush\<close> and
  \<^verbatim>\<open>ReadBytes\<close>, what \<^verbatim>\<open>jsonparser\<close> finds in a line, the values of the
  random source) is an argument of the function that uses it.

  The goroutines interleave at these points: a call of \<^verbatim>\<open>sendCommand\<close>, which
  holds the mutex from its first statement to its last, is one step; so is one pass of
  the loop of \<^verbatim>\<open>inputMonitor\<close>, and so is a receive from a response channel
  together with the close that follows it. \<^verbatim>\<open>Close\<close> is two steps, its wait and
  its closing of the connection.
\<close>

subsection \<open>Data\<close>

type_synonym bytes = string
type_synonym uint32 = "32 word"
type_synonym error = string
type_synonym chan_ref = nat

text \<open>
  The command templates of lines 24 to 40, without their last bytes.
  \<^verbatim>\<open>JPC_PAUSE_TOGGLE_\<close> loses its trailing underscore, which a constant name
  cannot carry here.
\<close>

definition JPC_PAUSE_ON :: bytes where
  \<open>JPC_PAUSE_ON = ''{"command": ["set_property", "pause", true]''\<close>

definition JPC_PAUSE_OFF :: bytes where
  \<open>JPC_PAUSE_OFF = ''{"command": ["set_property", "pause", false]''\<close>

definition JPC_PAUSE_TOGGLE :: bytes where
  \<open>JPC_PAUSE_TOGGLE = ''{"command": ["cycle", "pause"]''\<close>

definition JPC_OSC_OFF :: bytes where
  \<open>JPC_OSC_OFF = ''{"command": ["script-message", "osc-visibility", "never"]''\<close>

definition JPC_OSC_ON :: bytes where
  \<open>JPC_OSC_ON = ''{"command": ["script-message", "osc-visibility", "always"]''\<close>

definition JPC_PLAYLIST_PREV :: bytes where
  \<open>JPC_PLAYLIST_PREV = ''{"command": ["playlist-prev"]''\<close>

definition JPC_PLAYLIST_NEXT :: bytes where
  \<open>JPC_PLAYLIST_NEXT = ''{"command": ["playlist-next"]''\<close>

definition JPC_CHAPTER_PREV :: bytes where
  \<open>JPC_CHAPTER_PREV = ''{"command": ["add", "chapter", -1]''\<close>

definition JPC_CHAPTER_NEXT :: bytes where
  \<open>JPC_CHAPTER_NEXT = ''{"command": ["add", "chapter", 1]''\<close>

definition JPC_PRESS_LEFT :: bytes where
  \<open>JPC_PRESS_LEFT = ''{"command": ["keypress", "LEFT"]''\<close>

definition JPC_PRESS_RIGHT :: bytes where
  \<open>JPC_PRESS_RIGHT = ''{"command": ["keypress", "RIGHT"]''\<close>

text \<open>
  An unbuffered channel of line 121, as far as this program uses it. Its only senders
  are the goroutines of lines 89 to 92, each of which sends one message and then closes
  the channel: \<open>sendq\<close> holds the messages of the goroutines blocked in
  \<^verbatim>\<open>ch <- msg\<close>, oldest first.
\<close>

record chan =
  sendq :: "bytes list"
  closed :: bool

definition make_chan :: chan where
  "make_chan = \<lparr>sendq = [], closed = False\<rparr>"

datatype conn = Open | Closed

text \<open>
  The struct of lines 42 to 51. \<open>rw\<close> is the write side of the buffered
  reader/writer: the payloads \<^verbatim>\<open>mc.rw.Write\<close> has accepted, in order. \<open>wg\<close> is
  the counter of the WaitGroup, as an integer without a bound, \<open>rd\<close> the state of the
  random source, whose type \<open>'r\<close> is left open, and \<open>i2c\<close> the routing table. The
  mutex has no field: a critical section is one step of the machine.
\<close>

record 'r MPVClient =
  nc :: conn
  rw :: "bytes list"
  wg :: int
  rd :: 'r
  i2c :: "uint32 \<rightharpoonup> chan_ref"

datatype monitor_state = Running | Exited

datatype close_state = NotClosing | Waited | Returned

text \<open>
  The running program: the client, the store of channels (\<open>nchans\<close> of them have
  been made, with the references \<open>0\<close> up to \<open>nchans - 1\<close>), whether the loop of
  \<^verbatim>\<open>inputMonitor\<close> still runs, how far a call of \<^verbatim>\<open>Close\<close> has come, and
  what has been handed to the logger.
\<close>

record 'r process = "'r MPVClient" +
  chans :: "chan_ref \<Rightarrow> chan"
  nchans :: nat
  monitor :: monitor_state
  closing :: close_state
  logs :: "string list"

text \<open>The ways the process ends: \<^verbatim>\<open>log.Fatal\<close> and the panics of the runtime.\<close>

datatype jerr = KeyPathNotFoundError | OtherParseError

datatype halt =
    Fatal_parse jerr
  | Fatal_unknown_id
  | Panic_negative_WaitGroup_counter
  | Panic_send_on_closed_channel

text \<open>
  A step ends the process, cannot be taken in this state (the goroutine stays blocked),
  or gives the next state.
\<close>

datatype 'a outcome = Halted halt | Blocked | is_Next: Next (the_Next: 'a)

subsection \<open>sendCommand\<close>

text \<open>The verb \<^verbatim>\<open>%d\<close> of \<^verbatim>\<open>fmt.Sprintf\<close> on an unsigned value.\<close>

fun fmt_d :: "nat \<Rightarrow> string" where
  "fmt_d n =
     (if n < 10 then [''0123456789'' ! n]
      else fmt_d (n div 10) @ [''0123456789'' ! (n mod 10)])"

declare fmt_d.simps [simp del]

text \<open>Line 112: \<^verbatim>\<open>fmt.Sprintf("%s, \"request_id\": %d}\n", cmd, msgID)\<close>.\<close>

definition ncmd_of :: "bytes \<Rightarrow> uint32 \<Rightarrow> bytes" where
  \<open>ncmd_of cmd msgID = cmd @ '', "request_id": '' @ fmt_d (unat msgID) @ ''}'' @ [CHR 0x0A]\<close>

text \<open>
  The number that a string of decimal digits denotes, read from the left. It is not
  part of the program: the properties of the lines written are stated with it.
\<close>

definition dec_value :: "string \<Rightarrow> nat" where
  "dec_value ds = foldl (\<lambda>a c. 10 * a + (of_char c - 48)) 0 ds"

text \<open>
  Lines 104 to 125. \<open>Uint32\<close> is \<^verbatim>\<open>(*rand.Rand).Uint32\<close> as a function of the
  state of the source; \<open>wr\<close> and \<open>fl\<close> are what \<^verbatim>\<open>Write\<close> and
  \<^verbatim>\<open>Flush\<close> return (\<open>None\<close> for \<^verbatim>\<open>nil\<close>). The identifier is drawn before the
  write, so the source has advanced also when the call fails. The result is the
  returned pair, as a sum, and the state after the call.
\<close>

definition sendCommand ::
  "('r \<Rightarrow> uint32 \<times> 'r) \<Rightarrow> bytes \<Rightarrow> error option \<Rightarrow> error option \<Rightarrow> 'r process
     \<Rightarrow> (error + chan_ref) \<times> 'r process" where
  "sendCommand Uint32 cmd wr fl p =
     (let (msgID, rd') = Uint32 (rd p);
          ncmd = ncmd_of cmd msgID;
          p1 = p\<lparr>rd := rd'\<rparr>
      in case wr of
           Some err \<Rightarrow> (Inl err, p1)
         | None \<Rightarrow>
             (let p2 = p1\<lparr>rw := rw p1 @ [ncmd]\<rparr>
              in case fl of
                   Some err \<Rightarrow> (Inl err, p2)
                 | None \<Rightarrow>
                     (let ch = nchans p2;
                          p3 = p2\<lparr>chans := (chans p2)(ch := make_chan), nchans := nchans p2 + 1\<rparr>;
                          p4 = p3\<lparr>i2c := (i2c p3)(msgID \<mapsto> ch)\<rparr>;
                          p5 = p4\<lparr>wg := wg p4 + 1\<rparr>
                      in (Inr (the (i2c p5 msgID)), p5))))"

text \<open>The exported commands of lines 128 to 140.\<close>

definition PauseToggle where
  "PauseToggle Uint32 = sendCommand Uint32 JPC_PAUSE_TOGGLE"

definition OSCOff where
  "OSCOff Uint32 = sendCommand Uint32 JPC_OSC_OFF"

definition OSCOn where
  "OSCOn Uint32 = sendCommand Uint32 JPC_OSC_ON"

definition PlaylistPrev where
  "PlaylistPrev Uint32 = sendCommand Uint32 JPC_PLAYLIST_PREV"

definition PlaylistNext where
  "PlaylistNext Uint32 = sendCommand Uint32 JPC_PLAYLIST_NEXT"

definition ChapterPrev where
  "ChapterPrev Uint32 = sendCommand Uint32 JPC_CHAPTER_PREV"

definition ChapterNext where
  "ChapterNext Uint32 = sendCommand Uint32 JPC_CHAPTER_NEXT"

definition PressLeft where
  "PressLeft Uint32 = sendCommand Uint32 JPC_PRESS_LEFT"

definition PressRight where
  "PressRight Uint32 = sendCommand Uint32 JPC_PRESS_RIGHT"

subsection \<open>NewMPVClient\<close>

text \<open>
  Lines 142 to 157. \<open>dial\<close> is the error of \<^verbatim>\<open>winio.DialPipe\<close>, if any, and
  \<open>NewSource\<close> is \<^verbatim>\<open>rand.NewSource\<close>. The last statement starts the loop of
  \<^verbatim>\<open>inputMonitor\<close>.
\<close>

definition NewMPVClient ::
  "(int \<Rightarrow> 'r) \<Rightarrow> string \<Rightarrow> error option \<Rightarrow> error + 'r process" where
  "NewMPVClient NewSource pipeName dial =
     (case dial of
        Some err \<Rightarrow> Inl err
      | None \<Rightarrow>
          Inr \<lparr>nc = Open, rw = [], wg = 0, rd = NewSource 0, i2c = Map.empty,
               chans = (\<lambda>_. make_chan), nchans = 0, monitor = Running,
               closing = NotClosing, logs = []\<rparr>)"

subsection \<open>inputMonitor\<close>

text \<open>
  What one call of \<^verbatim>\<open>ReadBytes\<close> gives the loop. For a line, the record carries the
  bytes and what the two \<^verbatim>\<open>jsonparser\<close> calls of lines 70 and 80 return for them.
\<close>

record incoming =
  dbt :: bytes
  event :: "jerr + string"
  request_id :: "jerr + int"

datatype read = Line incoming | EOF | ReadError error

text \<open>
  Lines 89 to 92: the goroutine that sends the message and closes the channel, at the
  moment it reaches its send: on a closed channel the send panics, on an open one the
  goroutine waits in the queue for a receiver.
\<close>

definition go_deliver :: "chan_ref \<Rightarrow> bytes \<Rightarrow> 'r process \<Rightarrow> 'r process outcome" where
  "go_deliver ch msg p =
     (if closed (chans p ch) then Halted Panic_send_on_closed_channel
      else Next (p\<lparr>chans := (chans p)(ch := (chans p ch)\<lparr>sendq := sendq (chans p ch) @ [msg]\<rparr>)\<rparr>))"

text \<open>Line 95: \<^verbatim>\<open>wg.Done()\<close> panics when the counter would become negative.\<close>

definition wg_Done :: "'r process \<Rightarrow> 'r process outcome" where
  "wg_Done p =
     (if wg p - 1 < 0 then Halted Panic_negative_WaitGroup_counter
      else Next (p\<lparr>wg := wg p - 1\<rparr>))"

text \<open>
  One pass through the body of the \<^verbatim>\<open>for\<close> loop of \<^verbatim>\<open>inputMonitor\<close>,
  lines 61 to 99, on the result of its call of \<^verbatim>\<open>ReadBytes\<close>. The critical
  section and the \<^verbatim>\<open>wg.Done()\<close> after it are taken as one step. The goroutine
  started in line 89 runs once the loop has gone through lines 94 and 95, so it
  reaches its send after \<^verbatim>\<open>wg.Done()\<close>: where both would panic, the process ends
  with the panic of \<^verbatim>\<open>wg.Done()\<close>. The conversion \<^verbatim>\<open>uint32(msgID)\<close> of line 85
  keeps the low 32 bits.
\<close>

definition inputMonitor_pass :: "read \<Rightarrow> 'r process \<Rightarrow> 'r process outcome" where
  "inputMonitor_pass r p =
     (case r of
        EOF \<Rightarrow> Next (p\<lparr>monitor := Exited\<rparr>)
      | ReadError err \<Rightarrow> Next (p\<lparr>monitor := Exited, logs := logs p @ [err]\<rparr>)
      | Line l \<Rightarrow>
          (case event l of
             Inl KeyPathNotFoundError \<Rightarrow>
               (case request_id l of
                  Inl err \<Rightarrow> Halted (Fatal_parse err)
                | Inr msgID \<Rightarrow>
                    (case i2c p (word_of_int msgID) of
                       None \<Rightarrow> Halted Fatal_unknown_id
                     | Some ch \<Rightarrow>
                         (case wg_Done p of
                            Next p1 \<Rightarrow> go_deliver ch (dbt l) p1
                          | other \<Rightarrow> other)))
           | Inl err \<Rightarrow> Halted (Fatal_parse err)
           | Inr ename \<Rightarrow>
               Next (p\<lparr>logs := logs p @ [''We got event ( '' @ ename @ '' ): '' @ dbt l]\<rparr>)))"

text \<open>
  The loop of lines 60 to 100, run on the results of its successive calls of
  \<^verbatim>\<open>ReadBytes\<close> with no other goroutine in between. The function returns when the
  loop breaks (\<open>monitor\<close> is then \<open>Exited\<close>) or the process ends; when the list
  is used up the loop waits in \<^verbatim>\<open>ReadBytes\<close>, and the state reached so far is
  given with \<open>monitor\<close> still \<open>Running\<close>.
\<close>

fun inputMonitor :: "read list \<Rightarrow> 'r process \<Rightarrow> 'r process outcome" where
  "inputMonitor [] p = Next p"
| "inputMonitor (r # rs) p =
     (case inputMonitor_pass r p of
        Next p' \<Rightarrow> (if monitor p' = Exited then Next p' else inputMonitor rs p')
      | Halted h \<Rightarrow> Halted h
      | Blocked \<Rightarrow> Blocked)"

subsection \<open>Receiving from a response channel\<close>

text \<open>
  A caller evaluates \<^verbatim>\<open><-res\<close>, as \<^verbatim>\<open>basicHandler\<close> does in line 167. With a
  goroutine waiting in the queue the receiver gets its message, and that goroutine goes
  on to close the channel, which makes any other sender still waiting panic. On a closed
  channel the receive returns \<^verbatim>\<open>nil\<close> at once. Otherwise the caller waits.
\<close>

definition chan_recv :: "chan_ref \<Rightarrow> 'r process \<Rightarrow> (bytes option \<times> 'r process) outcome" where
  "chan_recv ch p =
     (if nchans p \<le> ch then Blocked
      else case sendq (chans p ch) of
             msg # waiting \<Rightarrow>
               (if waiting = [] then
                  Next (Some msg, p\<lparr>chans := (chans p)(ch := \<lparr>sendq = [], closed = True\<rparr>)\<rparr>)
                else Halted Panic_send_on_closed_channel)
           | [] \<Rightarrow> (if closed (chans p ch) then Next (None, p) else Blocked))"

subsection \<open>Close\<close>

text \<open>
  Lines 53 to 57 are two statements, and no lock is held across them: other goroutines
  run between \<^verbatim>\<open>mc.wg.Wait()\<close> and \<^verbatim>\<open>mc.nc.Close()\<close>. \<open>Close_Wait\<close> is the
  return of the first, which happens only when the counter is zero, and \<open>Close_nc\<close>
  is the second, with the error the connection reports.
\<close>

definition Close_Wait :: "'r process \<Rightarrow> 'r process outcome" where
  "Close_Wait p = (if wg p = 0 then Next (p\<lparr>closing := Waited\<rparr>) else Blocked)"

definition Close_nc :: "error option \<Rightarrow> 'r process \<Rightarrow> error option \<times> 'r process" where
  "Close_nc err p = (err, p\<lparr>nc := Closed, closing := Returned\<rparr>)"

text \<open>\<^verbatim>\<open>Close\<close> with nothing running in between.\<close>

definition Close :: "error option \<Rightarrow> 'r process \<Rightarrow> (error option \<times> 'r process) outcome" where
  "Close err p =
     (case Close_Wait p of
        Next p1 \<Rightarrow> Next (Close_nc err p1)
      | Halted h \<Rightarrow> Halted h
      | Blocked \<Rightarrow> Blocked)"

subsection \<open>The process as a whole\<close>

text \<open>
  The goroutines of the process run side by side. The steps they take: a caller runs
  \<^verbatim>\<open>sendCommand\<close>, the loop of \<^verbatim>\<open>inputMonitor\<close> makes one pass (while it has
  not broken), a caller receives from a channel, \<^verbatim>\<open>Close\<close> comes back from its
  wait, \<^verbatim>\<open>Close\<close> closes the connection. A run is a list of steps taken one after
  the other; a step that cannot be taken in the state it meets makes the run
  \<open>Blocked\<close>, and a step that ends the process ends the run.
\<close>

datatype action =
    is_Send: Send bytes "error option" "error option"
  | Monitor read
  | Receive chan_ref
  | CloseWait
  | CloseConn "error option"

definition step :: "('r \<Rightarrow> uint32 \<times> 'r) \<Rightarrow> action \<Rightarrow> 'r process \<Rightarrow> 'r process outcome" where
  "step Uint32 a p =
     (case a of
        Send cmd wr fl \<Rightarrow> Next (snd (sendCommand Uint32 cmd wr fl p))
      | Monitor r \<Rightarrow> (if monitor p = Running then inputMonitor_pass r p else Blocked)
      | Receive ch \<Rightarrow>
          (case chan_recv ch p of
             Next (msg, p') \<Rightarrow> Next p'
           | Halted h \<Rightarrow> Halted h
           | Blocked \<Rightarrow> Blocked)
      | CloseWait \<Rightarrow> (if closing p = NotClosing then Close_Wait p else Blocked)
      | CloseConn err \<Rightarrow> (if closing p = Waited then Next (snd (Close_nc err p)) else Blocked))"

fun exec :: "('r \<Rightarrow> uint32 \<times> 'r) \<Rightarrow> action list \<Rightarrow> 'r process \<Rightarrow> 'r process outcome" where
  "exec Uint32 [] p = Next p"
| "exec Uint32 (a # as) p =
     (case step Uint32 a p of
        Next p' \<Rightarrow> exec Uint32 as p'
      | Halted h \<Rightarrow> Halted h
      | Blocked \<Rightarrow> Blocked)"

text \<open>The number of \<^verbatim>\<open>sendCommand\<close> calls in a run.\<close>

definition sends :: "action list \<Rightarrow> nat" where
  "sends as = length (filter is_Send as)"

text \<open>
  The value that call number \<open>k\<close>, counted from zero, of \<^verbatim>\<open>Uint32\<close> returns
  on a source that starts in the state \<open>s\<close>, and the first \<open>k\<close> values in order.
\<close>

definition msgID_at :: "('r \<Rightarrow> uint32 \<times> 'r) \<Rightarrow> 'r \<Rightarrow> nat \<Rightarrow> uint32" where
  "msgID_at Uint32 s k = fst (Uint32 (((\<lambda>s. snd (Uint32 s)) ^^ k) s))"

definition draws :: "('r \<Rightarrow> uint32 \<times> 'r) \<Rightarrow> 'r \<Rightarrow> nat \<Rightarrow> uint32 list" where
  "draws Uint32 s k = map (msgID_at Uint32 s) [0..<k]"

subsection \<open>Concrete inputs for the examples\<close>

text \<open>
  The generator of \<^verbatim>\<open>math/rand\<close> is not part of the repository. The examples run
  the program with a stand-in whose state is a counter and whose values are \<open>0\<close>,
  \<open>1\<close>, \<open>2\<close> and so on; \<open>fresh_process\<close> is what \<^verbatim>\<open>NewMPVClient\<close>
  returns with it.
\<close>

definition counter_source :: "nat \<Rightarrow> uint32 \<times> nat" where
  "counter_source s = (word_of_nat s, Suc s)"

definition fresh_process :: "nat process" where
  "fresh_process =
     \<lparr>nc = Open, rw = [], wg = 0, rd = 0, i2c = Map.empty,
      chans = (\<lambda>_. make_chan), nchans = 0, monitor = Running,
      closing = NotClosing, logs = []\<rparr>"

text \<open>
  A response line of mpv for the request \<open>n\<close>, and a notification, each with what
  \<^verbatim>\<open>jsonparser\<close> finds in it.
\<close>

definition success_line :: "nat \<Rightarrow> incoming" where
  \<open>success_line n =
     \<lparr>dbt = ''{"request_id": '' @ fmt_d n @ '', "error": "success"}'' @ [CHR 0x0A],
      event = Inl KeyPathNotFoundError, request_id = Inr (int n)\<rparr>\<close>

definition pause_event :: incoming where
  \<open>pause_event =
     \<lparr>dbt = ''{"event": "pause"}'' @ [CHR 0x0A],
      event = Inr ''pause'', request_id = Inl KeyPathNotFoundError\<rparr>\<close>

section \<open>Properties\<close>

subsection \<open>Evaluating the examples\<close>

lemma NewMPVClient_fresh: "NewMPVClient nat pn None = Inr fresh_process"
  by (simp add: NewMPVClient_def fresh_process_def)

lemmas run_defs =
  step_def sendCommand_def inputMonitor_pass_def go_deliver_def wg_Done_def chan_recv_def
  Close_Wait_def Close_nc_def Close_def counter_source_def fresh_process_def
  success_line_def pause_event_def make_chan_def Let_def

text \<open>
  The lookup of line 85 sees the \<^verbatim>\<open>request_id\<close> of a line modulo \<open>2 ^ 32\<close>: with
  the command 0 pending, a line whose \<^verbatim>\<open>request_id\<close> is 4294967296 is handled as
  the response to the command 0 and does not halt the process.
\<close>

lemma wrapped_request_id_example:
  "inputMonitor_pass (Line ((success_line 0)\<lparr>request_id := Inr 4294967296\<rparr>))
      (snd (PauseToggle counter_source None None fresh_process)) =
   inputMonitor_pass (Line (success_line 0))
      (snd (PauseToggle counter_source None None fresh_process))
   \<and> is_Next (inputMonitor_pass (Line ((success_line 0)\<lparr>request_id := Inr 4294967296\<rparr>))
      (snd (PauseToggle counter_source None None fresh_process)))"
  by (simp add: run_defs PauseToggle_def)

subsection \<open>The decimal rendering of an identifier\<close>

lemma digit_cases:
  assumes "d < (10::nat)"
  shows "d = 0 \<or> d = 1 \<or> d = 2 \<or> d = 3 \<or> d = 4 \<or> d = 5 \<or> d = 6 \<or> d = 7 \<or> d = 8 \<or> d = 9"
  using assms by arith

lemma digit_char:
  assumes "d < (10::nat)"
  shows "''0123456789'' ! d \<in> set ''0123456789''"
    and "of_char (''0123456789'' ! d) - 48 = d"
    and "''0123456789'' ! d = CHR ''0'' \<longleftrightarrow> d = 0"
  using digit_cases [OF assms] by auto

lemma dec_value_snoc: "dec_value (ds @ [c]) = 10 * dec_value ds + (of_char c - 48)"
  by (simp add: dec_value_def)

lemma fmt_d_digits: "set (fmt_d n) \<subseteq> set ''0123456789''"
proof (induction n rule: fmt_d.induct)
  case (1 n)
  show ?case
  proof (cases "n < 10")
    case True
    with digit_char(1) [of n] show ?thesis
      by (subst fmt_d.simps) simp
  next
    case False
    with "1.IH" digit_char(1) [of "n mod 10"] show ?thesis
      by (subst fmt_d.simps) simp
  qed
qed

lemma fmt_d_value: "dec_value (fmt_d n) = n"
proof (induction n rule: fmt_d.induct)
  case (1 n)
  show ?case
  proof (cases "n < 10")
    case True
    with digit_char(2) [of n] show ?thesis
      by (subst fmt_d.simps) (simp add: dec_value_def)
  next
    case False
    with "1.IH" digit_char(2) [of "n mod 10"] show ?thesis
      by (subst fmt_d.simps) (simp add: dec_value_snoc)
  qed
qed

lemma fmt_d_nonempty: "fmt_d n \<noteq> []"
  by (subst fmt_d.simps) simp

lemma fmt_d_no_leading_zero: "hd (fmt_d n) = CHR ''0'' \<Longrightarrow> fmt_d n = ''0''"
proof (induction n rule: fmt_d.induct)
  case (1 n)
  show ?case
  proof (cases "n < 10")
    case True
    with "1.prems" digit_char(3) [of n] have "n = 0"
      by (subst (asm) fmt_d.simps) simp
    then show ?thesis
      by (subst fmt_d.simps) simp
  next
    case False
    with "1.prems" have "hd (fmt_d (n div 10)) = CHR ''0''"
      by (subst (asm) fmt_d.simps) (simp add: fmt_d_nonempty)
    with "1.IH" False have "fmt_d (n div 10) = ''0''" by simp
    then have "dec_value (fmt_d (n div 10)) = 0"
      by (simp add: dec_value_def)
    with False show ?thesis
      by (simp add: fmt_d_value)
  qed
qed


lemma digit_of_char:
  assumes "c \<in> set ''0123456789''"
  shows "of_char c - 48 < (10::nat)" and "''0123456789'' ! (of_char c - 48) = c"
  using assms by auto

lemma decimal_unique:
  "ds \<noteq> [] \<Longrightarrow> set ds \<subseteq> set ''0123456789'' \<Longrightarrow> (hd ds = CHR ''0'' \<longrightarrow> ds = ''0'') \<Longrightarrow>
     ds = fmt_d (dec_value ds)"
proof (induction ds rule: rev_induct)
  case Nil
  then show ?case by simp
next
  case (snoc c xs)
  from snoc.prems(2) have c: "c \<in> set ''0123456789''" by simp
  let ?d = "of_char c - 48 :: nat"
  from digit_of_char [OF c] have d: "?d < 10" "''0123456789'' ! ?d = c" by simp_all
  show ?case
  proof (cases "xs = []")
    case True
    with d show ?thesis
      by (subst fmt_d.simps) (simp add: dec_value_def)
  next
    case False
    with snoc.prems(3) have nz: "hd xs \<noteq> CHR ''0''" by auto
    from snoc.prems(2) have "set xs \<subseteq> set ''0123456789''" by simp
    with snoc.IH False nz have xs: "xs = fmt_d (dec_value xs)" by simp
    have "dec_value xs \<noteq> 0"
    proof
      assume "dec_value xs = 0"
      with xs have "xs = fmt_d 0" by simp
      then have "xs = ''0''" by (subst (asm) fmt_d.simps) simp
      with nz show False by simp
    qed
    then have big: "\<not> 10 * dec_value xs + ?d < 10" by simp
    have "fmt_d (10 * dec_value xs + ?d) = fmt_d (dec_value xs) @ [c]"
      using big d by (subst fmt_d.simps) simp
    with xs show ?thesis
      by (simp add: dec_value_snoc)
  qed
qed

subsection \<open>What the operations leave unchanged\<close>

lemma sendCommand_frame:
  "rd (snd (sendCommand U cmd wr fl p)) = snd (U (rd p))"
  "nc (snd (sendCommand U cmd wr fl p)) = nc p"
  "monitor (snd (sendCommand U cmd wr fl p)) = monitor p"
  "closing (snd (sendCommand U cmd wr fl p)) = closing p"
  "wg p \<le> wg (snd (sendCommand U cmd wr fl p))"
  by (simp_all add: sendCommand_def Let_def case_prod_beta split: option.splits)

lemma sendCommand_rw:
  "rw (snd (sendCommand U cmd None fl p)) = rw p @ [ncmd_of cmd (fst (U (rd p)))]"
  by (simp add: sendCommand_def Let_def case_prod_beta split: option.splits)

lemma sendCommand_i2c:
  "i2c (snd (sendCommand U cmd None None p)) = (i2c p)(fst (U (rd p)) \<mapsto> nchans p)"
  by (simp add: sendCommand_def Let_def case_prod_beta)

lemma sendCommand_table:
  "sendCommand U cmd wr fl p = (r, p') \<Longrightarrow>
     (wr = None \<and> fl = None \<and> i2c p' = (i2c p)(fst (U (rd p)) \<mapsto> nchans p)
        \<and> nchans p' = Suc (nchans p) \<and> wg p' = wg p + 1)
     \<or> ((wr \<noteq> None \<or> fl \<noteq> None) \<and> i2c p' = i2c p \<and> nchans p' = nchans p \<and> wg p' = wg p)"
  by (auto simp: sendCommand_def Let_def case_prod_beta split: option.splits)

lemma inputMonitor_pass_frame:
  assumes "inputMonitor_pass r p = Next p'"
  shows "rd p' = rd p" "nc p' = nc p" "closing p' = closing p" "i2c p' = i2c p"
    "nchans p' = nchans p" "wg p' \<le> wg p" "0 \<le> wg p \<Longrightarrow> 0 \<le> wg p'"
    "wg p = 0 \<Longrightarrow> wg p' = 0"
  using assms
  by (auto simp: inputMonitor_pass_def go_deliver_def wg_Done_def
      split: read.splits sum.splits jerr.splits option.splits if_splits outcome.splits)

lemma chan_recv_frame:
  assumes "chan_recv ch p = Next (msg, p')"
  shows "rd p' = rd p" "nc p' = nc p" "closing p' = closing p" "i2c p' = i2c p"
    "nchans p' = nchans p" "wg p' = wg p" "monitor p' = monitor p"
  using assms
  by (auto simp: chan_recv_def split: list.splits if_splits)

lemma step_Next_cases:
  assumes "step U a p = Next p'"
  obtains
    (Send) cmd wr fl where "a = Send cmd wr fl" "p' = snd (sendCommand U cmd wr fl p)"
  | (Monitor) r where "a = Monitor r" "monitor p = Running" "inputMonitor_pass r p = Next p'"
  | (Receive) ch msg where "a = Receive ch" "chan_recv ch p = Next (msg, p')"
  | (CloseWait) "a = CloseWait" "closing p = NotClosing" "wg p = 0" "p' = p\<lparr>closing := Waited\<rparr>"
  | (CloseConn) err where "a = CloseConn err" "closing p = Waited"
      "p' = p\<lparr>nc := Closed, closing := Returned\<rparr>"
  using assms
  by (cases a)
     (auto simp: step_def Close_Wait_def Close_nc_def split: if_splits outcome.splits)

lemma step_rd:
  assumes "step U a p = Next p'"
  shows "rd p' = (if is_Send a then snd (U (rd p)) else rd p)"
  using assms
proof (cases rule: step_Next_cases)
  case (Send cmd wr fl)
  then show ?thesis by (simp add: sendCommand_frame(1))
next
  case (Monitor r)
  with inputMonitor_pass_frame(1) [OF Monitor(3)] show ?thesis by simp
next
  case (Receive ch msg)
  with chan_recv_frame(1) [OF Receive(2)] show ?thesis by simp
qed simp_all

subsection \<open>Invariants of runs\<close>

lemma exec_rd:
  "exec U as p = Next p' \<Longrightarrow> rd p' = ((\<lambda>s. snd (U s)) ^^ sends as) (rd p)"
proof (induction as arbitrary: p)
  case Nil
  then show ?case by (simp add: sends_def)
next
  case (Cons a as)
  from Cons.prems obtain p1 where s: "step U a p = Next p1" and e: "exec U as p1 = Next p'"
    by (auto split: outcome.splits)
  have "rd p' = ((\<lambda>s. snd (U s)) ^^ sends as) (rd p1)"
    by (rule Cons.IH [OF e])
  moreover have "((\<lambda>s. snd (U s)) ^^ n) (snd (U x)) = snd (U (((\<lambda>s. snd (U s)) ^^ n) x))" for n x
    using funpow_swap1 [of "\<lambda>s. snd (U s)" n x] by simp
  ultimately show ?case
    using step_rd [OF s] by (cases "is_Send a") (simp_all add: sends_def)
qed



lemma step_not_Send:
  assumes "step U a p = Next p'" and "\<not> is_Send a"
  shows "i2c p' = i2c p \<and> nchans p' = nchans p \<and> rd p' = rd p \<and> wg p' \<le> wg p
       \<and> (0 \<le> wg p \<longrightarrow> 0 \<le> wg p') \<and> (wg p = 0 \<longrightarrow> wg p' = 0)"
  using assms(1)
proof (cases rule: step_Next_cases)
  case (Send cmd wr fl)
  with assms(2) show ?thesis by simp
next
  case (Monitor r)
  with inputMonitor_pass_frame [OF Monitor(3)] show ?thesis by simp
next
  case (Receive ch msg)
  with chan_recv_frame [OF Receive(2)] show ?thesis by simp
qed simp_all

lemma step_nc_closing:
  assumes "step U a p = Next p'"
  shows "nc p' = (case a of CloseConn err \<Rightarrow> Closed | _ \<Rightarrow> nc p)"
    and "closing p' = (case a of CloseWait \<Rightarrow> Waited | CloseConn err \<Rightarrow> Returned | _ \<Rightarrow> closing p)"
  using assms
proof (atomize (full), cases rule: step_Next_cases)
  case (Send cmd wr fl)
  then show "nc p' = (case a of CloseConn err \<Rightarrow> Closed | _ \<Rightarrow> nc p) \<and>
    closing p' = (case a of CloseWait \<Rightarrow> Waited | CloseConn err \<Rightarrow> Returned | _ \<Rightarrow> closing p)"
    by (simp add: sendCommand_frame)
next
  case (Monitor r)
  with inputMonitor_pass_frame [OF Monitor(3)]
  show "nc p' = (case a of CloseConn err \<Rightarrow> Closed | _ \<Rightarrow> nc p) \<and>
    closing p' = (case a of CloseWait \<Rightarrow> Waited | CloseConn err \<Rightarrow> Returned | _ \<Rightarrow> closing p)"
    by simp
next
  case (Receive ch msg)
  with chan_recv_frame [OF Receive(2)]
  show "nc p' = (case a of CloseConn err \<Rightarrow> Closed | _ \<Rightarrow> nc p) \<and>
    closing p' = (case a of CloseWait \<Rightarrow> Waited | CloseConn err \<Rightarrow> Returned | _ \<Rightarrow> closing p)"
    by simp
qed simp_all

lemma exec_wait_split:
  "exec U as p = Next q \<Longrightarrow> closing p = NotClosing \<Longrightarrow> closing q = Waited \<Longrightarrow>
     \<exists>as1 as2 q0. as = as1 @ CloseWait # as2 \<and> exec U as1 p = Next q0 \<and> wg q0 = 0
        \<and> closing q0 = NotClosing \<and> exec U as2 (q0\<lparr>closing := Waited\<rparr>) = Next q"
proof (induction as arbitrary: p)
  case Nil
  then show ?case by simp
next
  case (Cons a as)
  from Cons.prems(1) obtain p1 where s: "step U a p = Next p1" and e: "exec U as p1 = Next q"
    by (auto split: outcome.splits)
  from s show ?case
  proof (cases rule: step_Next_cases)
    case CloseWait
    with e have "a # as = [] @ CloseWait # as \<and> exec U [] p = Next p \<and> wg p = 0
        \<and> closing p = NotClosing \<and> exec U as (p\<lparr>closing := Waited\<rparr>) = Next q"
      by simp
    then show ?thesis by blast
  next
    case (CloseConn err)
    with Cons.prems(2) show ?thesis by simp
  next
    case (Send cmd wr fl)
    with Cons.prems(2) have "closing p1 = NotClosing"
      by (simp add: sendCommand_frame)
    from Cons.IH [OF e this Cons.prems(3)] obtain as1 as2 q0 where
      "as = as1 @ CloseWait # as2" "exec U as1 p1 = Next q0" "wg q0 = 0"
      "closing q0 = NotClosing" "exec U as2 (q0\<lparr>closing := Waited\<rparr>) = Next q"
      by blast
    with s have "a # as = (a # as1) @ CloseWait # as2 \<and> exec U (a # as1) p = Next q0 \<and> wg q0 = 0
        \<and> closing q0 = NotClosing \<and> exec U as2 (q0\<lparr>closing := Waited\<rparr>) = Next q"
      by simp
    then show ?thesis by blast
  next
    case (Monitor r)
    with Cons.prems(2) inputMonitor_pass_frame(3) [OF Monitor(3)] have "closing p1 = NotClosing"
      by simp
    from Cons.IH [OF e this Cons.prems(3)] obtain as1 as2 q0 where
      "as = as1 @ CloseWait # as2" "exec U as1 p1 = Next q0" "wg q0 = 0"
      "closing q0 = NotClosing" "exec U as2 (q0\<lparr>closing := Waited\<rparr>) = Next q"
      by blast
    with s have "a # as = (a # as1) @ CloseWait # as2 \<and> exec U (a # as1) p = Next q0 \<and> wg q0 = 0
        \<and> closing q0 = NotClosing \<and> exec U as2 (q0\<lparr>closing := Waited\<rparr>) = Next q"
      by simp
    then show ?thesis by blast
  next
    case (Receive ch msg)
    with Cons.prems(2) chan_recv_frame(3) [OF Receive(2)] have "closing p1 = NotClosing"
      by simp
    from Cons.IH [OF e this Cons.prems(3)] obtain as1 as2 q0 where
      "as = as1 @ CloseWait # as2" "exec U as1 p1 = Next q0" "wg q0 = 0"
      "closing q0 = NotClosing" "exec U as2 (q0\<lparr>closing := Waited\<rparr>) = Next q"
      by blast
    with s have "a # as = (a # as1) @ CloseWait # as2 \<and> exec U (a # as1) p = Next q0 \<and> wg q0 = 0
        \<and> closing q0 = NotClosing \<and> exec U as2 (q0\<lparr>closing := Waited\<rparr>) = Next q"
      by simp
    then show ?thesis by blast
  qed
qed

lemma exec_wg_zero:
  "exec U as p = Next q \<Longrightarrow> wg p = 0 \<Longrightarrow> \<forall>a\<in>set as. \<not> is_Send a \<Longrightarrow> wg q = 0"
proof (induction as arbitrary: p)
  case Nil
  then show ?case by simp
next
  case (Cons a as)
  from Cons.prems(1) obtain p1 where s: "step U a p = Next p1" and e: "exec U as p1 = Next q"
    by (auto split: outcome.splits)
  from Cons.prems(3) have "\<not> is_Send a" by simp
  from step_not_Send [OF s this] Cons.prems(2) have "wg p1 = 0" by simp
  from Cons.IH [OF e this] Cons.prems(3) show ?case by simp
qed

lemma exec_nc_Closed:
  "exec U as p = Next q \<Longrightarrow> nc p = Closed \<Longrightarrow> nc q = Closed"
proof (induction as arbitrary: p)
  case Nil
  then show ?case by simp
next
  case (Cons a as)
  from Cons.prems(1) obtain p1 where s: "step U a p = Next p1" and e: "exec U as p1 = Next q"
    by (auto split: outcome.splits)
  from step_nc_closing(1) [OF s] Cons.prems(2) have "nc p1 = Closed"
    by (simp split: action.splits)
  from Cons.IH [OF e this] show ?case .
qed

lemma exec_nc_Open:
  "exec U as p = Next q \<Longrightarrow> closing p \<noteq> Returned \<longrightarrow> nc p = Open \<Longrightarrow>
     closing q \<noteq> Returned \<longrightarrow> nc q = Open"
proof (induction as arbitrary: p)
  case Nil
  then show ?case by simp
next
  case (Cons a as)
  from Cons.prems(1) obtain p1 where s: "step U a p = Next p1" and e: "exec U as p1 = Next q"
    by (auto split: outcome.splits)
  have "closing p1 \<noteq> Returned \<longrightarrow> nc p1 = Open"
    using s
  proof (cases rule: step_Next_cases)
    case (Send cmd wr fl)
    with Cons.prems(2) show ?thesis by (simp add: sendCommand_frame)
  next
    case (Monitor r)
    with Cons.prems(2) inputMonitor_pass_frame(2,3) [OF Monitor(3)] show ?thesis by simp
  next
    case (Receive ch msg)
    with Cons.prems(2) chan_recv_frame(2,3) [OF Receive(2)] show ?thesis by simp
  next
    case CloseWait
    with Cons.prems(2) show ?thesis by simp
  next
    case (CloseConn err)
    then show ?thesis by simp
  qed
  from Cons.IH [OF e this] show ?case .
qed

lemma inj_on_map_upd_fresh:
  assumes "inj_on m (dom m)" and "\<forall>k' c'. m k' = Some c' \<longrightarrow> c' \<noteq> c"
  shows "inj_on (m(k \<mapsto> c)) (dom (m(k \<mapsto> c)))"
proof (rule inj_onI)
  fix x y
  assume x: "x \<in> dom (m(k \<mapsto> c))" and y: "y \<in> dom (m(k \<mapsto> c))"
    and eq: "(m(k \<mapsto> c)) x = (m(k \<mapsto> c)) y"
  from assms(2) have fresh: "m k' \<noteq> Some c" for k'
    by blast
  show "x = y"
  proof (cases "x = k")
    case True
    with eq fresh [of y] show ?thesis
      by (cases "y = k") simp_all
  next
    case False
    with eq fresh [of x] have yk: "y \<noteq> k"
      by (cases "y = k") simp_all
    with False x y eq have "x \<in> dom m" "y \<in> dom m" "m x = m y" by auto
    with assms(1) show ?thesis by (auto dest: inj_onD)
  qed
qed

lemma step_table_inv:
  assumes "step U a p = Next p'"
    and "\<forall>id ch. i2c p id = Some ch \<longrightarrow> ch < nchans p"
    and "inj_on (i2c p) (dom (i2c p))"
    and "0 \<le> wg p" and "wg p \<le> int (nchans p)"
    and "finite (dom (i2c p))" and "card (dom (i2c p)) \<le> nchans p"
  shows "(\<forall>id ch. i2c p' id = Some ch \<longrightarrow> ch < nchans p')
       \<and> inj_on (i2c p') (dom (i2c p'))
       \<and> 0 \<le> wg p' \<and> wg p' \<le> int (nchans p')
       \<and> finite (dom (i2c p')) \<and> card (dom (i2c p')) \<le> nchans p'"
proof (cases "is_Send a")
  case False
  from step_not_Send [OF assms(1) False] assms(2-7) show ?thesis by auto
next
  case True
  then obtain cmd wr fl where a: "a = Send cmd wr fl" by (cases a) simp_all
  with assms(1) have p': "sendCommand U cmd wr fl p = (fst (sendCommand U cmd wr fl p), p')"
    by (auto simp: step_def prod_eq_iff)
  from sendCommand_table [OF p'] show ?thesis
  proof
    assume ok: "wr = None \<and> fl = None \<and> i2c p' = (i2c p)(fst (U (rd p)) \<mapsto> nchans p)
        \<and> nchans p' = Suc (nchans p) \<and> wg p' = wg p + 1"
    have fresh: "\<forall>k' c'. i2c p k' = Some c' \<longrightarrow> c' \<noteq> nchans p"
      using assms(2) by fastforce
    have 1: "\<forall>id ch. i2c p' id = Some ch \<longrightarrow> ch < nchans p'"
      using ok assms(2) by (auto simp: less_Suc_eq)
    have 2: "inj_on (i2c p') (dom (i2c p'))"
      using ok inj_on_map_upd_fresh [OF assms(3) fresh] by simp
    have 3: "0 \<le> wg p' \<and> wg p' \<le> int (nchans p')"
      using ok assms(4,5) by simp
    have d: "dom (i2c p') = insert (fst (U (rd p))) (dom (i2c p))"
      using ok by simp
    have 4: "finite (dom (i2c p'))"
      using d assms(6) by simp
    have "card (dom (i2c p')) \<le> Suc (card (dom (i2c p)))"
      unfolding d by (rule card_insert_le_m1) simp_all
    with ok assms(7) have 5: "card (dom (i2c p')) \<le> nchans p'" by simp
    from 1 2 3 4 5 show ?thesis by blast
  next
    assume "(wr \<noteq> None \<or> fl \<noteq> None) \<and> i2c p' = i2c p \<and> nchans p' = nchans p \<and> wg p' = wg p"
    with assms(2-7) show ?thesis by simp
  qed
qed

lemma exec_table_inv:
  "exec U as p = Next p' \<Longrightarrow>
     (\<forall>id ch. i2c p id = Some ch \<longrightarrow> ch < nchans p)
       \<and> inj_on (i2c p) (dom (i2c p))
       \<and> 0 \<le> wg p \<and> wg p \<le> int (nchans p)
       \<and> finite (dom (i2c p)) \<and> card (dom (i2c p)) \<le> nchans p \<Longrightarrow>
     (\<forall>id ch. i2c p' id = Some ch \<longrightarrow> ch < nchans p')
       \<and> inj_on (i2c p') (dom (i2c p'))
       \<and> 0 \<le> wg p' \<and> wg p' \<le> int (nchans p')
       \<and> finite (dom (i2c p')) \<and> card (dom (i2c p')) \<le> nchans p'"
proof (induction as arbitrary: p)
  case Nil
  then show ?case by simp
next
  case (Cons a as)
  from Cons.prems(1) obtain p1 where s: "step U a p = Next p1" and e: "exec U as p1 = Next p'"
    by (auto split: outcome.splits)
  from Cons.prems(2) have "(\<forall>id ch. i2c p1 id = Some ch \<longrightarrow> ch < nchans p1)
       \<and> inj_on (i2c p1) (dom (i2c p1))
       \<and> 0 \<le> wg p1 \<and> wg p1 \<le> int (nchans p1)
       \<and> finite (dom (i2c p1)) \<and> card (dom (i2c p1)) \<le> nchans p1"
    by (intro step_table_inv [OF s]) simp_all
  from Cons.IH [OF e this] show ?case .
qed

lemma draws_Suc: "draws U s (Suc k) = draws U s k @ [msgID_at U s k]"
  by (simp add: draws_def)

lemma distinct_draws_prefix: "distinct (draws U s (k + n)) \<Longrightarrow> distinct (draws U s k)"
  by (induction n) (simp_all add: draws_Suc)

lemma distinct_draws_bound:
  assumes "distinct (draws U s k)"
  shows "k \<le> 2 ^ 32"
proof -
  have "k = length (draws U s k)"
    by (simp add: draws_def)
  also have "\<dots> = card (set (draws U s k))"
    using assms by (simp add: distinct_card)
  also have "\<dots> \<le> card (UNIV :: uint32 set)"
    by (rule card_mono) simp_all
  also have "\<dots> = 2 ^ 32"
    by (simp add: card_word)
  finally show ?thesis .
qed

lemma exec_table_distinct:
  "exec U as p = Next p' \<Longrightarrow> rd p = ((\<lambda>s. snd (U s)) ^^ k) s0 \<Longrightarrow> finite (dom (i2c p)) \<Longrightarrow>
     dom (i2c p) \<subseteq> set (draws U s0 k) \<Longrightarrow> distinct (draws U s0 (k + sends as)) \<Longrightarrow>
     card (dom (i2c p)) = nchans p \<Longrightarrow>
     card (dom (i2c p')) = nchans p'"
proof (induction as arbitrary: p k)
  case Nil
  then show ?case by simp
next
  case (Cons a as)
  from Cons.prems(1) obtain p1 where s: "step U a p = Next p1" and e: "exec U as p1 = Next p'"
    by (auto split: outcome.splits)
  show ?case
  proof (cases "is_Send a")
    case False
    then have n: "sends (a # as) = sends as" by (simp add: sends_def)
    from step_not_Send [OF s False]
    have eq: "i2c p1 = i2c p" "nchans p1 = nchans p" "rd p1 = rd p" by simp_all
    show ?thesis
      using Cons.IH [OF e, of k] Cons.prems(2-6) eq n by simp
  next
    case True
    then obtain cmd wr fl where a: "a = Send cmd wr fl" by (cases a) simp_all
    from True have n: "k + sends (a # as) = Suc k + sends as" by (simp add: sends_def)
    with Cons.prems(5) have dist: "distinct (draws U s0 (Suc k + sends as))" by simp
    then have "distinct (draws U s0 (Suc k))" by (rule distinct_draws_prefix)
    then have new: "msgID_at U s0 k \<notin> set (draws U s0 k)"
      by (simp add: draws_Suc)
    have id: "fst (U (rd p)) = msgID_at U s0 k"
      using Cons.prems(2) by (simp add: msgID_at_def)
    from a s have p1: "sendCommand U cmd wr fl p = (fst (sendCommand U cmd wr fl p), p1)"
      by (auto simp: step_def prod_eq_iff)
    from step_rd [OF s] True Cons.prems(2) have rd1: "rd p1 = ((\<lambda>s. snd (U s)) ^^ Suc k) s0"
      by simp
    from sendCommand_table [OF p1]
    have "finite (dom (i2c p1)) \<and> dom (i2c p1) \<subseteq> set (draws U s0 (Suc k))
        \<and> card (dom (i2c p1)) = nchans p1"
    proof
      assume ok: "wr = None \<and> fl = None \<and> i2c p1 = (i2c p)(fst (U (rd p)) \<mapsto> nchans p)
          \<and> nchans p1 = Suc (nchans p) \<and> wg p1 = wg p + 1"
      then have d: "dom (i2c p1) = insert (msgID_at U s0 k) (dom (i2c p))"
        using id by simp
      from new Cons.prems(4) have "msgID_at U s0 k \<notin> dom (i2c p)" by blast
      with Cons.prems(3) have "card (insert (msgID_at U s0 k) (dom (i2c p))) = Suc (card (dom (i2c p)))"
        by simp
      with d ok Cons.prems(3,4,6) show ?thesis
        by (auto simp: draws_Suc)
    next
      assume "(wr \<noteq> None \<or> fl \<noteq> None) \<and> i2c p1 = i2c p \<and> nchans p1 = nchans p \<and> wg p1 = wg p"
      with Cons.prems(3,4,6) show ?thesis
        by (auto simp: draws_Suc)
    qed
    with Cons.IH [OF e rd1 _ _ dist] show ?thesis by simp
  qed
qed

subsection \<open>sendCommand\<close>

text \<open>
  C9. Every line that \<^verbatim>\<open>sendCommand\<close> hands to the writer is the template of the
  command followed by \<^verbatim>\<open>, "request_id": <id>}\<close> and a newline, where the
  identifier is the value just drawn, in decimal: a string of the digits 0 to 9, not
  empty, with no zero in front unless it is the single digit 0, that denotes the
  identifier. There is one such string for each identifier, so the line is what the
  claim says whichever way the digits are produced. For the pause toggle and the
  identifier 7 the line is \<^verbatim>\<open>{"command": ["cycle", "pause"], "request_id": 7}\<close>
  and a newline.
\<close>

theorem sendCommand_wire_line:
  \<open>rw (snd (sendCommand Uint32 cmd None fl p)) =
     rw p @ [cmd @ '', "request_id": '' @ fmt_d (unat (fst (Uint32 (rd p)))) @ ''}'' @ [CHR 0x0A]]
   \<and> fmt_d (unat (fst (Uint32 (rd p)))) \<noteq> []
   \<and> set (fmt_d (unat (fst (Uint32 (rd p))))) \<subseteq> set ''0123456789''
   \<and> (hd (fmt_d (unat (fst (Uint32 (rd p))))) = CHR ''0'' \<longrightarrow>
        fmt_d (unat (fst (Uint32 (rd p)))) = ''0'')
   \<and> dec_value (fmt_d (unat (fst (Uint32 (rd p))))) = unat (fst (Uint32 (rd p)))
   \<and> (\<forall>ds. ds \<noteq> [] \<and> set ds \<subseteq> set ''0123456789'' \<and> (hd ds = CHR ''0'' \<longrightarrow> ds = ''0'')
          \<and> dec_value ds = unat (fst (Uint32 (rd p))) \<longrightarrow>
        rw (snd (sendCommand Uint32 cmd None fl p)) =
          rw p @ [cmd @ '', "request_id": '' @ ds @ ''}'' @ [CHR 0x0A]])
   \<and> (fst (Uint32 (rd p)) = 7 \<longrightarrow>
        rw (snd (PauseToggle Uint32 None fl p)) =
          rw p @ [''{"command": ["cycle", "pause"], "request_id": 7}'' @ [CHR 0x0A]])\<close>
proof -
  let ?n = "unat (fst (Uint32 (rd p)))"
  have 1: \<open>rw (snd (sendCommand Uint32 cmd None fl p)) =
     rw p @ [cmd @ '', "request_id": '' @ fmt_d ?n @ ''}'' @ [CHR 0x0A]]\<close>
    by (simp add: sendCommand_rw ncmd_of_def)
  have 2: "fmt_d ?n \<noteq> []" by (rule fmt_d_nonempty)
  have 3: "set (fmt_d ?n) \<subseteq> set ''0123456789''" by (rule fmt_d_digits)
  have 4: "hd (fmt_d ?n) = CHR ''0'' \<longrightarrow> fmt_d ?n = ''0''"
    using fmt_d_no_leading_zero by blast
  have 5: "dec_value (fmt_d ?n) = ?n" by (rule fmt_d_value)
  have 6: \<open>\<forall>ds. ds \<noteq> [] \<and> set ds \<subseteq> set ''0123456789'' \<and> (hd ds = CHR ''0'' \<longrightarrow> ds = ''0'')
          \<and> dec_value ds = ?n \<longrightarrow>
        rw (snd (sendCommand Uint32 cmd None fl p)) =
          rw p @ [cmd @ '', "request_id": '' @ ds @ ''}'' @ [CHR 0x0A]]\<close>
  proof (intro allI impI)
    fix ds
    assume a: "ds \<noteq> [] \<and> set ds \<subseteq> set ''0123456789'' \<and> (hd ds = CHR ''0'' \<longrightarrow> ds = ''0'')
          \<and> dec_value ds = ?n"
    then have "ds = fmt_d (dec_value ds)"
      by (intro decimal_unique) simp_all
    with a have "ds = fmt_d ?n" by simp
    with 1 show \<open>rw (snd (sendCommand Uint32 cmd None fl p)) =
          rw p @ [cmd @ '', "request_id": '' @ ds @ ''}'' @ [CHR 0x0A]]\<close>
      by simp
  qed
  have 7: \<open>fst (Uint32 (rd p)) = 7 \<longrightarrow>
        rw (snd (PauseToggle Uint32 None fl p)) =
          rw p @ [''{"command": ["cycle", "pause"], "request_id": 7}'' @ [CHR 0x0A]]\<close>
  proof
    assume id7: "fst (Uint32 (rd p)) = 7"
    have "fmt_d (unat (7 :: uint32)) = ''7''"
      by (simp add: fmt_d.simps)
    with id7 show \<open>rw (snd (PauseToggle Uint32 None fl p)) =
          rw p @ [''{"command": ["cycle", "pause"], "request_id": 7}'' @ [CHR 0x0A]]\<close>
      by (simp add: PauseToggle_def sendCommand_rw ncmd_of_def JPC_PAUSE_TOGGLE_def)
  qed
  from 1 2 3 4 5 6 7 show ?thesis by blast
qed

theorem sendCommand_wire_line_witness:
  \<open>fst (counter_source (rd (fresh_process\<lparr>rd := 7\<rparr>))) = 7 \<and>
   rw (snd (PauseToggle counter_source None None (fresh_process\<lparr>rd := 7\<rparr>))) =
     [''{"command": ["cycle", "pause"], "request_id": 7}'' @ [CHR 0x0A]] \<and>
   rw (snd (sendCommand counter_source JPC_OSC_ON None None (fresh_process\<lparr>rd := 4294967295\<rparr>))) =
     rw (fresh_process\<lparr>rd := 4294967295\<rparr>) @
       [JPC_OSC_ON @ '', "request_id": '' @ ''4294967295'' @ ''}'' @ [CHR 0x0A]]\<close>
proof -
  let ?p = "fresh_process\<lparr>rd := 4294967295\<rparr>"
  have a: "fst (counter_source (rd (fresh_process\<lparr>rd := 7\<rparr>))) = 7"
    by (simp add: counter_source_def)
  have d: \<open>''4294967295'' \<noteq> [] \<and> set ''4294967295'' \<subseteq> set ''0123456789''
      \<and> (hd ''4294967295'' = CHR ''0'' \<longrightarrow> ''4294967295'' = ''0'')
      \<and> dec_value ''4294967295'' = unat (fst (counter_source (rd ?p)))\<close>
    by (simp add: dec_value_def counter_source_def fresh_process_def)
  from sendCommand_wire_line [of counter_source JPC_PAUSE_TOGGLE None "fresh_process\<lparr>rd := 7\<rparr>"] a
  have 1: \<open>rw (snd (PauseToggle counter_source None None (fresh_process\<lparr>rd := 7\<rparr>))) =
     [''{"command": ["cycle", "pause"], "request_id": 7}'' @ [CHR 0x0A]]\<close>
    by (simp add: fresh_process_def)
  from sendCommand_wire_line [of counter_source JPC_OSC_ON None ?p]
  have \<open>\<forall>ds. ds \<noteq> [] \<and> set ds \<subseteq> set ''0123456789'' \<and> (hd ds = CHR ''0'' \<longrightarrow> ds = ''0'')
          \<and> dec_value ds = unat (fst (counter_source (rd ?p))) \<longrightarrow>
        rw (snd (sendCommand counter_source JPC_OSC_ON None None ?p)) =
          rw ?p @ [JPC_OSC_ON @ '', "request_id": '' @ ds @ ''}'' @ [CHR 0x0A]]\<close>
    by blast
  with d have 2: \<open>rw (snd (sendCommand counter_source JPC_OSC_ON None None ?p)) =
      rw ?p @ [JPC_OSC_ON @ '', "request_id": '' @ ''4294967295'' @ ''}'' @ [CHR 0x0A]]\<close>
    by blast
  from a 1 2 show ?thesis by blast
qed

text \<open>
  C2. When the write or the flush fails, \<^verbatim>\<open>sendCommand\<close> returns that error, and the
  call registers nothing: the routing table, the store of channels and the counter of
  the WaitGroup are what they were before the call. (The random source has been read
  once by then, since line 111 comes before the write.)
\<close>

theorem sendCommand_failure:
  "wr \<noteq> None \<or> fl \<noteq> None \<Longrightarrow>
     fst (sendCommand Uint32 cmd wr fl p) = Inl (the (if wr \<noteq> None then wr else fl))
     \<and> i2c (snd (sendCommand Uint32 cmd wr fl p)) = i2c p
     \<and> chans (snd (sendCommand Uint32 cmd wr fl p)) = chans p
     \<and> nchans (snd (sendCommand Uint32 cmd wr fl p)) = nchans p
     \<and> wg (snd (sendCommand Uint32 cmd wr fl p)) = wg p"
  by (auto simp: sendCommand_def Let_def case_prod_beta split: option.splits)

theorem sendCommand_failure_witness:
  "fst (sendCommand counter_source JPC_PAUSE_TOGGLE None (Some ''broken pipe'') fresh_process)
     = Inl ''broken pipe''
   \<and> i2c (snd (sendCommand counter_source JPC_PAUSE_TOGGLE None (Some ''broken pipe'')
        fresh_process)) 0 = None
   \<and> nchans (snd (sendCommand counter_source JPC_PAUSE_TOGGLE None (Some ''broken pipe'')
        fresh_process)) = 0
   \<and> wg (snd (sendCommand counter_source JPC_PAUSE_TOGGLE None (Some ''broken pipe'')
        fresh_process)) = 0"
  using sendCommand_failure [of None "Some ''broken pipe''" counter_source JPC_PAUSE_TOGGLE
      fresh_process]
  by (simp add: fresh_process_def)


text \<open>
  C10. \<^verbatim>\<open>NewMPVClient\<close> seeds the source with the constant 0 and every call of
  \<^verbatim>\<open>sendCommand\<close> reads it exactly once, so the identifier of a call depends only
  on how many calls came before it. Take two clients and any two runs, each with
  \<open>k\<close> calls of \<^verbatim>\<open>sendCommand\<close>, successful or not, mixed with any other steps:
  the next call draws the same identifier in both, namely value number \<open>k\<close> of the
  source seeded with 0, and that identifier is what the call writes on the wire and
  registers in the table.
\<close>

theorem msgID_deterministic:
  assumes "NewMPVClient NewSource pn1 None = Inr p0"
    and "NewMPVClient NewSource pn2 None = Inr q0"
    and "exec U as p0 = Next p"
    and "exec U bs q0 = Next q"
    and "sends as = k"
    and "sends bs = k"
  shows "fst (U (rd p)) = fst (U (rd q))
       \<and> fst (U (rd p)) = msgID_at U (NewSource 0) k
       \<and> rw (snd (sendCommand U cmd None fl1 p)) = rw p @ [ncmd_of cmd (msgID_at U (NewSource 0) k)]
       \<and> rw (snd (sendCommand U cmd None fl2 q)) = rw q @ [ncmd_of cmd (msgID_at U (NewSource 0) k)]
       \<and> i2c (snd (sendCommand U cmd None None p)) (msgID_at U (NewSource 0) k) = Some (nchans p)
       \<and> i2c (snd (sendCommand U cmd None None q)) (msgID_at U (NewSource 0) k) = Some (nchans q)"
proof -
  from assms(1,2) have "rd p0 = NewSource 0" "rd q0 = NewSource 0"
    by (auto simp: NewMPVClient_def)
  with exec_rd [OF assms(3)] exec_rd [OF assms(4)] assms(5,6)
  have "fst (U (rd p)) = msgID_at U (NewSource 0) k" "fst (U (rd q)) = msgID_at U (NewSource 0) k"
    by (simp_all add: msgID_at_def)
  then show ?thesis
    by (simp add: sendCommand_rw sendCommand_i2c)
qed

theorem msgID_deterministic_witness:
  "msgID_at counter_source (nat 0) 1 = 1
   \<and> fst (counter_source (rd (the_Next (exec counter_source
         [Send JPC_PAUSE_TOGGLE None None] fresh_process)))) =
     fst (counter_source (rd (the_Next (exec counter_source
         [Monitor (Line pause_event), Send JPC_OSC_ON (Some ''broken pipe'') None] fresh_process))))"
proof -
  have a: "exec counter_source [Send JPC_PAUSE_TOGGLE None None] fresh_process =
      Next (the_Next (exec counter_source [Send JPC_PAUSE_TOGGLE None None] fresh_process))"
    by (simp add: step_def)
  have b: "exec counter_source
        [Monitor (Line pause_event), Send JPC_OSC_ON (Some ''broken pipe'') None] fresh_process =
      Next (the_Next (exec counter_source
        [Monitor (Line pause_event), Send JPC_OSC_ON (Some ''broken pipe'') None] fresh_process))"
    by (simp add: step_def inputMonitor_pass_def pause_event_def fresh_process_def)
  have k1: "sends [Send JPC_PAUSE_TOGGLE None None] = 1"
    and k2: "sends [Monitor (Line pause_event), Send JPC_OSC_ON (Some ''broken pipe'') None] = 1"
    by (simp_all add: sends_def)
  show ?thesis
    using msgID_deterministic [OF NewMPVClient_fresh NewMPVClient_fresh a b k1 k2]
    by (simp add: msgID_at_def counter_source_def)
qed

subsection \<open>inputMonitor\<close>




text \<open>
  C7, as amended. The lookup of line 85 converts the \<^verbatim>\<open>request_id\<close> of a line with
  \<^verbatim>\<open>uint32(msgID)\<close>, that is, it takes it modulo \<open>2 ^ 32\<close>. A response line whose
  \<^verbatim>\<open>request_id\<close>, taken modulo \<open>2 ^ 32\<close>, is not in the routing table ends the
  process through \<^verbatim>\<open>log.Fatal\<close> in line 87: the line is not dropped, the loop does
  not go on to the next read, and no later step of the run is taken.
\<close>

theorem unknown_id_halts:
  assumes "event l = Inl KeyPathNotFoundError"
    and "request_id l = Inr n"
    and "i2c p (word_of_int n) = None"
    and "monitor p = Running"
  shows "inputMonitor_pass (Line l) p = Halted Fatal_unknown_id
         \<and> inputMonitor (Line l # rs) p = Halted Fatal_unknown_id
         \<and> exec Uint32 (Monitor (Line l) # as) p = Halted Fatal_unknown_id"
  using assms by (simp add: inputMonitor_pass_def step_def)

theorem unknown_id_halts_witness:
  "inputMonitor_pass (Line (success_line 7)) fresh_process = Halted Fatal_unknown_id
   \<and> inputMonitor [Line (success_line 7), Line pause_event] fresh_process = Halted Fatal_unknown_id
   \<and> exec counter_source [Monitor (Line (success_line 7)), Monitor (Line pause_event)] fresh_process
       = Halted Fatal_unknown_id"
  using unknown_id_halts [of "success_line 7" 7 fresh_process "[Line pause_event]" counter_source
      "[Monitor (Line pause_event)]"]
  by (simp add: run_defs)

text \<open>
  The claim as stated fails: on a fresh client, a response for the request 7 halts the
  process.
\<close>

theorem unknown_id_counterexample:
  "inputMonitor_pass (Line (success_line 7)) fresh_process = Halted Fatal_unknown_id"
  by (simp add: run_defs)

text \<open>
  C8. A line with an \<^verbatim>\<open>event\<close> field only adds one entry to the log, made of the
  event name and the line. The routing table, the counter of the WaitGroup and every
  channel are left as they were.
\<close>

theorem notification_frame:
  assumes "event l = Inr ename"
  shows "inputMonitor_pass (Line l) p =
           Next (p\<lparr>logs := logs p @ [''We got event ( '' @ ename @ '' ): '' @ dbt l]\<rparr>)
         \<and> i2c (the_Next (inputMonitor_pass (Line l) p)) = i2c p
         \<and> wg (the_Next (inputMonitor_pass (Line l) p)) = wg p
         \<and> chans (the_Next (inputMonitor_pass (Line l) p)) = chans p
         \<and> nchans (the_Next (inputMonitor_pass (Line l) p)) = nchans p"
  using assms by (simp add: inputMonitor_pass_def)

theorem notification_frame_witness:
  \<open>inputMonitor_pass (Line pause_event) fresh_process =
     Next (fresh_process\<lparr>logs := [''We got event ( pause ): {"event": "pause"}'' @ [CHR 0x0A]]\<rparr>)\<close>
  using notification_frame [of pause_event "''pause''" fresh_process]
  by (simp add: run_defs)

subsection \<open>Close\<close>




text \<open>
  C5, as amended. A call of \<^verbatim>\<open>Close\<close> waits while the counter of the WaitGroup is
  positive. Whenever it closes the connection, \<^verbatim>\<open>mc.wg.Wait()\<close> has returned
  earlier in the run, in a state where the counter was zero, and the connection has been
  open until then; if no call of \<^verbatim>\<open>sendCommand\<close> ran between the two statements,
  the counter is still zero when the connection is closed. After \<^verbatim>\<open>mc.nc.Close()\<close>
  the connection is closed and stays closed. The channels are not touched: a line that
  waits in a delivery goroutine is still received afterwards.
\<close>

theorem Close_closes_after_wait:
  assumes "NewMPVClient NewSource pn None = Inr p0"
    and "exec U as p0 = Next q"
    and "step U (CloseConn err) q = Next q'"
  shows "(\<exists>as1 as2 q0. as = as1 @ CloseWait # as2 \<and> exec U as1 p0 = Next q0 \<and> wg q0 = 0
            \<and> ((\<forall>a\<in>set as2. \<not> is_Send a) \<longrightarrow> wg q = 0))
       \<and> nc q = Open \<and> nc q' = Closed \<and> closing q' = Returned
       \<and> (\<forall>bs q''. exec U bs q' = Next q'' \<longrightarrow> nc q'' = Closed)
       \<and> (\<forall>s :: 'a process. 0 < wg s \<longrightarrow> Close_Wait s = Blocked \<and> Close err s = Blocked)
       \<and> (\<forall>ch msg s. chan_recv ch q = Next (Some msg, s) \<longrightarrow>
             chan_recv ch q' = Next (Some msg, s\<lparr>nc := Closed, closing := Returned\<rparr>))"
proof -
  from assms(1) have p0: "closing p0 = NotClosing" "nc p0 = Open"
    by (auto simp: NewMPVClient_def)
  from assms(3) have w: "closing q = Waited" and q': "q' = q\<lparr>nc := Closed, closing := Returned\<rparr>"
    by (auto simp: step_def Close_nc_def split: if_splits)
  from exec_wait_split [OF assms(2) p0(1) w] obtain as1 as2 q0 where
    d: "as = as1 @ CloseWait # as2" "exec U as1 p0 = Next q0" "wg q0 = 0"
      "exec U as2 (q0\<lparr>closing := Waited\<rparr>) = Next q"
    by blast
  have "(\<forall>a\<in>set as2. \<not> is_Send a) \<longrightarrow> wg q = 0"
    using exec_wg_zero [OF d(4)] d(3) by simp
  with d have 1: "\<exists>as1 as2 q0. as = as1 @ CloseWait # as2 \<and> exec U as1 p0 = Next q0 \<and> wg q0 = 0
            \<and> ((\<forall>a\<in>set as2. \<not> is_Send a) \<longrightarrow> wg q = 0)"
    by blast
  from exec_nc_Open [OF assms(2)] p0 w have 2: "nc q = Open" by simp
  from q' have 3: "nc q' = Closed" "closing q' = Returned" by simp_all
  from 3(1) have 4: "\<forall>bs q''. exec U bs q' = Next q'' \<longrightarrow> nc q'' = Closed"
    by (auto dest: exec_nc_Closed)
  have 5: "\<forall>s :: 'a process. 0 < wg s \<longrightarrow> Close_Wait s = Blocked \<and> Close err s = Blocked"
    by (simp add: Close_Wait_def Close_def)
  have 6: "\<forall>ch msg s. chan_recv ch q = Next (Some msg, s) \<longrightarrow>
             chan_recv ch q' = Next (Some msg, s\<lparr>nc := Closed, closing := Returned\<rparr>)"
    unfolding q' by (auto simp: chan_recv_def split: list.splits if_splits)
  from 1 2 3 4 5 6 show ?thesis by blast
qed

theorem Close_closes_after_wait_witness:
  "nc (the_Next (exec counter_source
      [Send JPC_PAUSE_TOGGLE None None, Monitor (Line (success_line 0)), CloseWait] fresh_process))
     = Open
   \<and> nc (the_Next (step counter_source (CloseConn None) (the_Next (exec counter_source
      [Send JPC_PAUSE_TOGGLE None None, Monitor (Line (success_line 0)), CloseWait] fresh_process))))
     = Closed
   \<and> wg (the_Next (exec counter_source
      [Send JPC_PAUSE_TOGGLE None None, Monitor (Line (success_line 0)), CloseWait] fresh_process))
     = 0"
proof -
  let ?as = "[Send JPC_PAUSE_TOGGLE None None, Monitor (Line (success_line 0)), CloseWait]"
  let ?q = "the_Next (exec counter_source ?as fresh_process)"
  have a: "exec counter_source ?as fresh_process = Next ?q"
    by (simp add: run_defs)
  have b: "step counter_source (CloseConn None) ?q =
      Next (the_Next (step counter_source (CloseConn None) ?q))"
    by (simp add: run_defs)
  have c: "wg ?q = 0"
    by (simp add: run_defs)
  from Close_closes_after_wait [OF NewMPVClient_fresh a b] c show ?thesis
    by blast
qed

text \<open>
  The claim as stated fails: \<^verbatim>\<open>Close\<close> comes back from its wait with the counter
  at zero, a caller sends a command, which raises the counter to one, and then
  \<^verbatim>\<open>Close\<close> closes the connection. The response to the first command is received
  by its caller after that.
\<close>

theorem Close_with_outstanding_counterexample:
  "is_Next (exec counter_source
      [Send JPC_PAUSE_TOGGLE None None, Monitor (Line (success_line 0)), CloseWait,
       Send JPC_OSC_ON None None] fresh_process)
   \<and> wg (the_Next (exec counter_source
      [Send JPC_PAUSE_TOGGLE None None, Monitor (Line (success_line 0)), CloseWait,
       Send JPC_OSC_ON None None] fresh_process)) = 1
   \<and> nc (the_Next (exec counter_source
      [Send JPC_PAUSE_TOGGLE None None, Monitor (Line (success_line 0)), CloseWait,
       Send JPC_OSC_ON None None] fresh_process)) = Open
   \<and> is_Next (exec counter_source
      [Send JPC_PAUSE_TOGGLE None None, Monitor (Line (success_line 0)), CloseWait,
       Send JPC_OSC_ON None None, CloseConn None] fresh_process)
   \<and> nc (the_Next (exec counter_source
      [Send JPC_PAUSE_TOGGLE None None, Monitor (Line (success_line 0)), CloseWait,
       Send JPC_OSC_ON None None, CloseConn None] fresh_process)) = Closed
   \<and> closing (the_Next (exec counter_source
      [Send JPC_PAUSE_TOGGLE None None, Monitor (Line (success_line 0)), CloseWait,
       Send JPC_OSC_ON None None, CloseConn None] fresh_process)) = Returned
   \<and> wg (the_Next (exec counter_source
      [Send JPC_PAUSE_TOGGLE None None, Monitor (Line (success_line 0)), CloseWait,
       Send JPC_OSC_ON None None, CloseConn None] fresh_process)) = 1
   \<and> fst (the_Next (chan_recv 0 (the_Next (exec counter_source
      [Send JPC_PAUSE_TOGGLE None None, Monitor (Line (success_line 0)), CloseWait,
       Send JPC_OSC_ON None None, CloseConn None] fresh_process)))) = Some (dbt (success_line 0))"
  by (simp add: run_defs)

subsection \<open>The routing table\<close>

text \<open>
  C4, as amended. In every state a run reaches from \<^verbatim>\<open>NewMPVClient\<close>, each
  identifier in the routing table is bound to one channel that has been made, no two
  identifiers are bound to the same channel, and the counter of the WaitGroup lies
  between zero and the number of channels made. An identifier stays in the table after
  its response has been handled. \<^verbatim>\<open>sendCommand\<close> stores the new channel under the
  identifier it has drawn without looking the identifier up, so an earlier entry under
  the same identifier is replaced. As long as the values drawn from the source are
  pairwise distinct, which no source keeps up for more than \<open>2 ^ 32\<close> calls, the table
  holds one identifier for every command that has been sent successfully.
\<close>

theorem table_invariant:
  assumes "NewMPVClient NewSource pn None = Inr p0"
    and "exec U as p0 = Next p"
  shows "(\<forall>id ch. i2c p id = Some ch \<longrightarrow> ch < nchans p)
       \<and> inj_on (i2c p) (dom (i2c p))
       \<and> 0 \<le> wg p \<and> wg p \<le> int (nchans p)
       \<and> card (dom (i2c p)) \<le> nchans p
       \<and> (distinct (draws U (NewSource 0) (sends as)) \<longrightarrow>
             card (dom (i2c p)) = nchans p \<and> sends as \<le> 2 ^ 32)
       \<and> i2c (snd (sendCommand U cmd None None p)) = (i2c p)(fst (U (rd p)) \<mapsto> nchans p)
       \<and> (\<forall>a p'. step U a p = Next p' \<and> \<not> is_Send a \<longrightarrow> i2c p' = i2c p)"
proof -
  from assms(1) have p0: "i2c p0 = Map.empty" "nchans p0 = 0" "wg p0 = 0" "rd p0 = NewSource 0"
    by (auto simp: NewMPVClient_def)
  then have "(\<forall>id ch. i2c p0 id = Some ch \<longrightarrow> ch < nchans p0)
       \<and> inj_on (i2c p0) (dom (i2c p0))
       \<and> 0 \<le> wg p0 \<and> wg p0 \<le> int (nchans p0)
       \<and> finite (dom (i2c p0)) \<and> card (dom (i2c p0)) \<le> nchans p0"
    by simp
  from exec_table_inv [OF assms(2) this]
  have 1: "(\<forall>id ch. i2c p id = Some ch \<longrightarrow> ch < nchans p)
       \<and> inj_on (i2c p) (dom (i2c p))
       \<and> 0 \<le> wg p \<and> wg p \<le> int (nchans p)
       \<and> card (dom (i2c p)) \<le> nchans p"
    by simp
  have 2: "distinct (draws U (NewSource 0) (sends as)) \<longrightarrow>
      card (dom (i2c p)) = nchans p \<and> sends as \<le> 2 ^ 32"
    using exec_table_distinct [OF assms(2), of 0 "NewSource 0"] p0
      distinct_draws_bound [of U "NewSource 0" "sends as"]
    by (simp add: draws_def)
  have 3: "\<forall>a p'. step U a p = Next p' \<and> \<not> is_Send a \<longrightarrow> i2c p' = i2c p"
    using step_not_Send by blast
  from 1 2 3 show ?thesis
    by (simp add: sendCommand_i2c)
qed

theorem table_invariant_witness:
  "card (dom (i2c (the_Next (exec counter_source
      [Send JPC_PAUSE_TOGGLE None None, Send JPC_OSC_ON None None, Monitor (Line (success_line 0))]
      fresh_process)))) =
   nchans (the_Next (exec counter_source
      [Send JPC_PAUSE_TOGGLE None None, Send JPC_OSC_ON None None, Monitor (Line (success_line 0))]
      fresh_process))
   \<and> wg (the_Next (exec counter_source
      [Send JPC_PAUSE_TOGGLE None None, Send JPC_OSC_ON None None, Monitor (Line (success_line 0))]
      fresh_process)) \<le> 2"
proof -
  let ?as = "[Send JPC_PAUSE_TOGGLE None None, Send JPC_OSC_ON None None,
    Monitor (Line (success_line 0))]"
  have a: "exec counter_source ?as fresh_process = Next (the_Next (exec counter_source ?as fresh_process))"
    by (simp add: run_defs)
  have n: "nchans (the_Next (exec counter_source ?as fresh_process)) = 2"
    by (simp add: run_defs)
  have d: "distinct (draws counter_source (nat 0) (sends ?as))"
    by (simp add: draws_def sends_def msgID_at_def counter_source_def)
  from table_invariant [OF NewMPVClient_fresh a] d n show ?thesis
    by simp
qed

text \<open>
  The claim as stated fails: after the response to the only command has been handled,
  the identifier of that command is in the table while no command awaits a response.
\<close>

theorem table_entry_without_command_counterexample:
  "is_Next (exec counter_source
      [Send JPC_PAUSE_TOGGLE None None, Monitor (Line (success_line 0))] fresh_process)
   \<and> i2c (the_Next (exec counter_source
      [Send JPC_PAUSE_TOGGLE None None, Monitor (Line (success_line 0))] fresh_process)) 0 = Some 0
   \<and> wg (the_Next (exec counter_source
      [Send JPC_PAUSE_TOGGLE None None, Monitor (Line (success_line 0))] fresh_process)) = 0"
  by (simp add: run_defs)

end
